theory Spec2Isabelle
  imports Main "HOL-Library.Sublist"
begin

section \<open>Data model\<close>

text \<open>
  The module \<^verbatim>\<open>src/main.py\<close> keeps the crawled site as a Python \<^verbatim>\<open>dict[str, str]\<close>
  (\<^verbatim>\<open>app.state.site_data\<close>). A Python dict iterates in insertion order and has unique
  keys, so its contents are an association list of (url, text) pairs whose keys are
  distinct. A Python \<^verbatim>\<open>str\<close> is modelled as a \<open>string\<close>, every \<open>char\<close> standing for
  one code point below 256, so that \<open>length\<close> is Python's \<^verbatim>\<open>len\<close>.
\<close>

type_synonym item = "string \<times> string"
type_synonym dict = "item list"

definition wf_dict :: "dict \<Rightarrow> bool" where
  "wf_dict d = distinct (map fst d)"

text \<open>
  Dicts are mutable objects reached through references: \<^verbatim>\<open>site_data.copy()\<close> makes a
  new object, \<^verbatim>\<open>del d[url]\<close> changes the object in place. The store maps references to
  dict contents; \<open>next_ref\<close> is the first reference not yet allocated.
\<close>

type_synonym ref = nat

record heap =
  objs :: "ref \<Rightarrow> dict"
  next_ref :: ref

datatype error =
    HTTPException nat string
  | KeyError string
  | IndexError
  | AttributeError
  | UpstreamFailure string

section \<open>The size metric: \<^verbatim>\<open>len(str(d))\<close>\<close>

text \<open>
  \<^verbatim>\<open>str\<close> of a dict is \<^verbatim>\<open>{k1: v1, k2: v2}\<close> with every key and value printed by
  \<^verbatim>\<open>repr\<close>. \<^verbatim>\<open>repr\<close> of a string encloses it in single quotes (in double quotes when
  it holds a single quote and no double quote), escapes the enclosing quote and the
  backslash with a backslash, prints tab, newline and carriage return as two characters
  and every other character that is not printable as \<^verbatim>\<open>\xhh\<close>.
\<close>

definition squote :: char where
  "squote = CHR 0x27"

definition dquote :: char where
  "dquote = CHR 0x22"

definition backslash :: char where
  "backslash = CHR 0x5C"

definition isprintable :: "char \<Rightarrow> bool" where
  "isprintable c =
     (let n = (of_char c :: nat) in (32 \<le> n \<and> n < 127) \<or> (161 \<le> n \<and> n \<noteq> 173))"

definition hexdigit :: "nat \<Rightarrow> char" where
  "hexdigit n = ''0123456789abcdef'' ! (n mod 16)"

definition hex_escape :: "char \<Rightarrow> string" where
  "hex_escape c =
     (let n = (of_char c :: nat)
      in [backslash, CHR ''x'', hexdigit (n div 16), hexdigit (n mod 16)])"

definition repr_quote :: "string \<Rightarrow> char" where
  "repr_quote s = (if squote \<in> set s \<and> dquote \<notin> set s then dquote else squote)"

definition repr_char :: "char \<Rightarrow> char \<Rightarrow> string" where
  "repr_char q c =
     (if c = q \<or> c = backslash then [backslash, c]
      else if c = CHR 0x09 then [backslash, CHR ''t'']
      else if c = CHR 0x0A then [backslash, CHR ''n'']
      else if c = CHR 0x0D then [backslash, CHR ''r'']
      else if (of_char c :: nat) < 32 \<or> (of_char c :: nat) = 127 then hex_escape c
      else if (of_char c :: nat) < 127 then [c]
      else if \<not> isprintable c then hex_escape c
      else [c])"

definition py_repr :: "string \<Rightarrow> string" where
  "py_repr s = (let q = repr_quote s in [q] @ concat (map (repr_char q) s) @ [q])"

fun join_comma :: "string list \<Rightarrow> string" where
  "join_comma [] = []"
| "join_comma [x] = x"
| "join_comma (x # y # ys) = x @ '', '' @ join_comma (y # ys)"

definition repr_item :: "item \<Rightarrow> string" where
  "repr_item e = py_repr (fst e) @ '': '' @ py_repr (snd e)"

definition py_str_dict :: "dict \<Rightarrow> string" where
  "py_str_dict d = ''{'' @ join_comma (map repr_item d) @ ''}''"

section \<open>The budget enforcer: \<^verbatim>\<open>_enforce_site_data_limit\<close>\<close>

definition MAX_TEXT_LENGTH :: int where
  "MAX_TEXT_LENGTH = 196000"

text \<open>\<^verbatim>\<open>site_data.copy()\<close>: a new object with the same items, at a fresh reference.\<close>

definition dict_copy :: "heap \<Rightarrow> ref \<Rightarrow> heap \<times> ref" where
  "dict_copy h r =
     (h\<lparr>objs := (objs h)(next_ref h := objs h r), next_ref := Suc (next_ref h)\<rparr>, next_ref h)"

text \<open>\<^verbatim>\<open>del d[url]\<close>: removes the key from the object in place, KeyError when absent.\<close>

definition dict_del :: "heap \<Rightarrow> ref \<Rightarrow> string \<Rightarrow> error + heap" where
  "dict_del h r url =
     (if url \<in> set (map fst (objs h r))
      then Inr (h\<lparr>objs := (objs h)(r := filter (\<lambda>e. fst e \<noteq> url) (objs h r))\<rparr>)
      else Inl (KeyError url))"

text \<open>
  \<^verbatim>\<open>sorted(d.items(), key=lambda x: len(x[1]), reverse=True)\<close>: Python's sort is stable,
  also with \<^verbatim>\<open>reverse=True\<close> (items with equal keys keep their order). Sorting by the
  negated length with the stable insertion sort \<open>sort_key\<close> gives this list.
\<close>

definition sorted_items :: "dict \<Rightarrow> item list" where
  "sorted_items d = sort_key (\<lambda>x. - int (length (snd x))) d"

text \<open>
  The \<^verbatim>\<open>for\<close> loop of lines 85 to 89, over the remaining items of the sorted list. The
  state is the store, the local \<^verbatim>\<open>total_text_length\<close> (a Python int) and, as a trace
  that the source does not keep, the items deleted so far in the order of their
  \<^verbatim>\<open>del\<close>. \<open>limit\<close> is the constant the loop compares with and \<open>r\<close> the reference held
  by \<^verbatim>\<open>site_data_with_data_limit\<close>.
\<close>

fun evict_loop :: "int \<Rightarrow> ref \<Rightarrow> item list \<Rightarrow> heap \<times> int \<times> item list
    \<Rightarrow> error + (heap \<times> int \<times> item list)" where
  "evict_loop limit r [] s = Inr s"
| "evict_loop limit r ((url, text) # rest) (h, total_text_length, evicted) =
     (if total_text_length \<le> limit then Inr (h, total_text_length, evicted)
      else (case dict_del h r url of
              Inl e \<Rightarrow> Inl e
            | Inr h' \<Rightarrow>
                evict_loop limit r rest
                  (h', total_text_length - int (length text), evicted @ [(url, text)])))"

text \<open>
  The body of \<^verbatim>\<open>_enforce_site_data_limit\<close> with the limit as a parameter. It returns
  the store, the reference of the returned dict, the final \<^verbatim>\<open>total_text_length\<close> and the
  trace of evicted items. The \<^verbatim>\<open>print\<close> of line 83 is left out.
\<close>

definition enforce_run :: "int \<Rightarrow> heap \<Rightarrow> ref \<Rightarrow> error + (heap \<times> ref \<times> int \<times> item list)" where
  "enforce_run limit h site_data =
     (let (h1, site_data_with_data_limit) = dict_copy h site_data;
          total_text_length = int (length (py_str_dict (objs h1 site_data_with_data_limit)))
      in if total_text_length > limit
         then (case evict_loop limit site_data_with_data_limit
                      (sorted_items (objs h1 site_data_with_data_limit))
                      (h1, total_text_length, []) of
                 Inl e \<Rightarrow> Inl e
               | Inr (h2, total_text_length', evicted) \<Rightarrow>
                   Inr (h2, site_data_with_data_limit, total_text_length', evicted))
         else Inr (h1, site_data_with_data_limit, total_text_length, []))"

text \<open>The function as the module has it: the limit is \<^verbatim>\<open>MAX_TEXT_LENGTH\<close>.\<close>

definition enforce_site_data_limit :: "heap \<Rightarrow> ref \<Rightarrow> error + (heap \<times> ref)" where
  "enforce_site_data_limit h site_data =
     (case enforce_run MAX_TEXT_LENGTH h site_data of
        Inl e \<Rightarrow> Inl e
      | Inr (h', r, total_text_length, evicted) \<Rightarrow> Inr (h', r))"

section \<open>The request handler: \<^verbatim>\<open>ask_question\<close>\<close>

text \<open>
  The reply of \<^verbatim>\<open>client.beta.chat.completions.parse\<close>, as far as the handler reads it:
  the messages of \<^verbatim>\<open>response.choices\<close>, each with its \<^verbatim>\<open>content\<close> and its \<^verbatim>\<open>refusal\<close>
  (a string or \<^verbatim>\<open>None\<close>), and \<^verbatim>\<open>response.usage\<close>, which is \<^verbatim>\<open>None\<close> or an object whose
  \<^verbatim>\<open>to_dict()\<close> is the dict kept here.
\<close>

record message =
  content :: "string option"
  refusal :: "string option"

record completion =
  choices :: "message list"
  usage :: "(string \<times> int) list option"

text \<open>The dict under the key \<^verbatim>\<open>"response"\<close> of the returned JSON object.\<close>

record answer_result =
  user_question :: string
  answer :: "string option"
  input_tokens :: "int option"
  output_tokens :: "int option"
  sources :: "string list"

text \<open>Truth value of \<^verbatim>\<open>answer.refusal\<close> in \<^verbatim>\<open>if answer.refusal:\<close>: a non-empty string.\<close>

definition truthy :: "string option \<Rightarrow> bool" where
  "truthy x = (case x of None \<Rightarrow> False | Some s \<Rightarrow> s \<noteq> [])"

definition too_long_detail :: string where
  "too_long_detail = ''Question exceeds maximum length of 500 characters''"

definition refusal_detail :: string where
  "refusal_detail = ''The AI refused to answer the question based on the provided data.''"

text \<open>An f-string prints \<^verbatim>\<open>WEBSITE\<close>, the value of \<^verbatim>\<open>os.getenv\<close>, as \<^verbatim>\<open>None\<close> when it is unset.\<close>

definition format_website :: "string option \<Rightarrow> string" where
  "format_website w = (case w of None \<Rightarrow> ''None'' | Some s \<Rightarrow> s)"

definition system_content :: string where
  "system_content =
     ''You are an AI assistant trained to answer questions based on the information provided '' @
     ''from the crawled website. You should answer as accurately as possible based solely on '' @
     ''the content of the website data, without including any outside information. If the question '' @
     ''cannot be answered based on the provided data, indicate that clearly.''"

definition user_content :: "string option \<Rightarrow> dict \<Rightarrow> string \<Rightarrow> string" where
  "user_content WEBSITE site_data_for_open_ai question =
     ''I have the following site data available, which is about the website '' @ [squote] @
       format_website WEBSITE @ [squote] @ ''. '' @
     ''Please read through the data and answer the following question: '' @ [CHR 0x0A, CHR 0x0A] @
     ''Website data:'' @ [CHR 0x0A, CHR 0x0A] @ py_str_dict site_data_for_open_ai @
       [CHR 0x0A, CHR 0x0A] @ ''Question: '' @ question @ [CHR 0x0A] @
     ''Provide a clear and concise answer based on the information above.''"

definition messages :: "string option \<Rightarrow> dict \<Rightarrow> string \<Rightarrow> (string \<times> string) list" where
  "messages WEBSITE site_data_for_open_ai question =
     [(''system'', system_content),
      (''user'', user_content WEBSITE site_data_for_open_ai question)]"

text \<open>
  \<^verbatim>\<open>ask_question\<close>, lines 29 to 69. \<open>question\<close> is the decoded request body, \<open>site_data\<close>
  the reference in \<^verbatim>\<open>app.state.site_data\<close>, and \<open>parse\<close> the call of the OpenAI client,
  which answers the list of (role, content) messages with a completion or raises. A
  raised \<^verbatim>\<open>HTTPException\<close> is the error with its status code and detail.
\<close>

definition ask_question ::
  "string option \<Rightarrow> ((string \<times> string) list \<Rightarrow> string + completion) \<Rightarrow> heap \<Rightarrow> ref \<Rightarrow> string
     \<Rightarrow> error + (heap \<times> answer_result)" where
  "ask_question WEBSITE parse h site_data question =
     (if length question > 500 then Inl (HTTPException 400 too_long_detail)
      else (case enforce_site_data_limit h site_data of
              Inl e \<Rightarrow> Inl e
            | Inr (h1, site_data_for_open_ai) \<Rightarrow>
                (case parse (messages WEBSITE (objs h1 site_data_for_open_ai) question) of
                   Inl e \<Rightarrow> Inl (UpstreamFailure e)
                 | Inr response \<Rightarrow>
                     (case choices response of
                        [] \<Rightarrow> Inl IndexError
                      | answer_message # _ \<Rightarrow>
                          if truthy (refusal answer_message)
                          then Inl (HTTPException 400 refusal_detail)
                          else (case usage response of
                                  None \<Rightarrow> Inl AttributeError
                                | Some usage_dict \<Rightarrow>
                                    Inr (h1,
                                      \<lparr>user_question = question,
                                       answer = content answer_message,
                                       input_tokens = map_of usage_dict ''prompt_tokens'',
                                       output_tokens = map_of usage_dict ''completion_tokens'',
                                       sources = map fst (objs h1 site_data_for_open_ai)\<rparr>))))))"

section \<open>Auxiliary notions for the proofs\<close>

text \<open>The sum of the text lengths of a list of items: what the loop has subtracted.\<close>

definition text_total :: "item list \<Rightarrow> int" where
  "text_total xs = sum_list (map (\<lambda>e. int (length (snd e))) xs)"

text \<open>The number of iterations of the loop that reach the \<^verbatim>\<open>del\<close>.\<close>

fun evict_count :: "int \<Rightarrow> item list \<Rightarrow> int \<Rightarrow> nat" where
  "evict_count limit [] t = 0"
| "evict_count limit (e # rest) t =
     (if t \<le> limit then 0 else Suc (evict_count limit rest (t - int (length (snd e)))))"

definition evictions :: "int \<Rightarrow> dict \<Rightarrow> item list" where
  "evictions limit d =
     take (evict_count limit (sorted_items d) (int (length (py_str_dict d)))) (sorted_items d)"

definition trimmed :: "int \<Rightarrow> dict \<Rightarrow> dict" where
  "trimmed limit d = filter (\<lambda>e. fst e \<notin> fst ` set (evictions limit d)) d"

text \<open>A store with one allocated dict, at reference 0: the concrete inputs of the examples.\<close>

definition single_heap :: "dict \<Rightarrow> heap" where
  "single_heap d = \<lparr>objs = (\<lambda>r. if r = 0 then d else []), next_ref = 1\<rparr>"

text \<open>
  A corpus above \<open>MAX_TEXT_LENGTH\<close> (its serialized size is 196019), and a completion in
  which the model answers, one in which it refuses.
\<close>

definition big_corpus :: dict where
  "big_corpus = [(''a'', replicate 196000 CHR ''x''), (''b'', ''y'')]"

definition canned_reply :: completion where
  "canned_reply =
     \<lparr>choices = [\<lparr>content = Some ''ok'', refusal = None\<rparr>],
      usage = Some [(''prompt_tokens'', 7), (''completion_tokens'', 2)]\<rparr>"

definition refusing_reply :: completion where
  "refusing_reply =
     \<lparr>choices = [\<lparr>content = None, refusal = Some ''I cannot help with that.''\<rparr>],
      usage = Some [(''prompt_tokens'', 7), (''completion_tokens'', 2)]\<rparr>"

text \<open>
  The user message for the question \<^verbatim>\<open>hi\<close>, an unset \<^verbatim>\<open>BASE_URL\<close> and the website data
  \<^verbatim>\<open>{'b': 'y'}\<close>, written out character by character, and a client that answers these
  messages and no others.
\<close>

definition expected_user_message :: string where
  "expected_user_message =
     ''I have the following site data available, which is about the website '' @
       [CHR 0x27] @ ''None'' @ [CHR 0x27] @ ''. '' @
     ''Please read through the data and answer the following question: '' @ [CHR 0x0A, CHR 0x0A] @
     ''Website data:'' @ [CHR 0x0A, CHR 0x0A] @
     [CHR ''{'', CHR 0x27, CHR ''b'', CHR 0x27, CHR '':'', CHR '' '', CHR 0x27, CHR ''y'', CHR 0x27, CHR ''}''] @
     [CHR 0x0A, CHR 0x0A] @ ''Question: hi'' @ [CHR 0x0A] @
     ''Provide a clear and concise answer based on the information above.''"

definition checking_parse :: "(string \<times> string) list \<Rightarrow> string + completion" where
  "checking_parse ms =
     (if ms = [(''system'', system_content), (''user'', expected_user_message)]
      then Inr canned_reply else Inl ''unexpected messages'')"

section \<open>The size metric shrinks by at least the text length of a deleted item\<close>

lemma text_total_Nil: "text_total [] = 0"
  by (simp add: text_total_def)

lemma text_total_Cons: "text_total (e # xs) = int (length (snd e)) + text_total xs"
  by (simp add: text_total_def)

lemma length_repr_char: "1 \<le> length (repr_char q c)"
  by (simp add: repr_char_def hex_escape_def Let_def)

lemma length_concat_repr_char: "length s \<le> length (concat (map (repr_char q) s))"
proof (induction s)
  case Nil
  show ?case by simp
next
  case (Cons c s)
  have "1 \<le> length (repr_char q c)" by (rule length_repr_char)
  with Cons show ?case by simp
qed

lemma length_py_repr: "length s + 2 \<le> length (py_repr s)"
  using length_concat_repr_char [of s "repr_quote s"] by (simp add: py_repr_def Let_def)

lemma length_repr_item: "length (snd e) \<le> length (repr_item e)"
  using length_py_repr [of "snd e"] by (simp add: repr_item_def)

lemma length_join_comma_Cons:
  "length (join_comma (x # xs)) = length x + (if xs = [] then 0 else 2 + length (join_comma xs))"
  by (cases xs) simp_all

lemma join_comma_filter_le:
  "length (join_comma (map repr_item (filter P d))) \<le> length (join_comma (map repr_item d))"
  by (induction d) (simp_all add: length_join_comma_Cons)

lemma join_comma_del:
  "(url, text) \<in> set d \<Longrightarrow>
   length (join_comma (map repr_item (filter (\<lambda>e. fst e \<noteq> url) d))) + length text
     \<le> length (join_comma (map repr_item d))"
proof (induction d)
  case Nil
  then show ?case by simp
next
  case (Cons e d)
  let ?f = "filter (\<lambda>e. fst e \<noteq> url) d"
  show ?case
  proof (cases "e = (url, text)")
    case True
    have "length (join_comma (map repr_item ?f)) \<le> length (join_comma (map repr_item d))"
      by (rule join_comma_filter_le)
    moreover have "length text \<le> length (repr_item e)"
      using length_repr_item [of e] True by simp
    ultimately show ?thesis using True by (simp add: length_join_comma_Cons)
  next
    case False
    with Cons.prems have mem: "(url, text) \<in> set d" by simp
    then have ne: "d \<noteq> []" by auto
    from Cons.IH [OF mem]
    have ih: "length (join_comma (map repr_item ?f)) + length text
                \<le> length (join_comma (map repr_item d))" .
    show ?thesis
    proof (cases "fst e = url")
      case True
      with ih ne show ?thesis by (simp add: length_join_comma_Cons)
    next
      case False
      with ih ne show ?thesis by (simp add: length_join_comma_Cons)
    qed
  qed
qed

lemma py_str_dict_del:
  "(url, text) \<in> set d \<Longrightarrow>
   int (length (py_str_dict (filter (\<lambda>e. fst e \<noteq> url) d)))
     \<le> int (length (py_str_dict d)) - int (length text)"
  using join_comma_del [of url "text" d] by (simp add: py_str_dict_def)

lemma filter_keys_Cons:
  "filter (\<lambda>e. fst e \<notin> fst ` set (x # xs)) d
     = filter (\<lambda>e. fst e \<notin> fst ` set xs) (filter (\<lambda>e. fst e \<noteq> fst x) d)"
  by (induction d) auto

lemma py_str_dict_del_all:
  "distinct (map fst xs) \<Longrightarrow> set xs \<subseteq> set d \<Longrightarrow>
   int (length (py_str_dict (filter (\<lambda>e. fst e \<notin> fst ` set xs) d)))
     \<le> int (length (py_str_dict d)) - text_total xs"
proof (induction xs arbitrary: d)
  case Nil
  show ?case by (simp add: text_total_Nil)
next
  case (Cons x xs)
  let ?d = "filter (\<lambda>e. fst e \<noteq> fst x) d"
  from Cons.prems have x: "(fst x, snd x) \<in> set d" by simp
  have sub: "set xs \<subseteq> set ?d" using Cons.prems by (auto simp: image_iff)
  from Cons.prems have dist: "distinct (map fst xs)" by simp
  have "int (length (py_str_dict (filter (\<lambda>e. fst e \<notin> fst ` set xs) ?d)))
          \<le> int (length (py_str_dict ?d)) - text_total xs"
    by (rule Cons.IH [OF dist sub])
  also have "\<dots> \<le> int (length (py_str_dict d)) - int (length (snd x)) - text_total xs"
    using py_str_dict_del [OF x] by simp
  finally show ?case by (simp only: filter_keys_Cons) (simp add: text_total_Cons)
qed

section \<open>The loop in closed form\<close>

lemma evict_count_le: "evict_count limit items t \<le> length items"
  by (induction items arbitrary: t) auto

lemma evict_count_stop:
  "t - text_total (take (evict_count limit items t) items) \<le> limit
     \<or> evict_count limit items t = length items"
proof (induction items arbitrary: t)
  case Nil
  show ?case by simp
next
  case (Cons e rest)
  show ?case
  proof (cases "t \<le> limit")
    case True
    then show ?thesis by (simp add: text_total_Nil)
  next
    case False
    with Cons.IH [of "t - int (length (snd e))"] show ?thesis
      by (auto simp: text_total_Cons)
  qed
qed

lemma evict_count_running:
  "m < evict_count limit items t \<Longrightarrow> limit < t - text_total (take m items)"
proof (induction items arbitrary: t m)
  case Nil
  then show ?case by simp
next
  case (Cons e rest)
  from Cons.prems have over: "\<not> t \<le> limit" by (auto split: if_splits)
  show ?case
  proof (cases m)
    case 0
    with over show ?thesis by (simp add: text_total_Nil)
  next
    case (Suc k)
    with Cons.prems over have "k < evict_count limit rest (t - int (length (snd e)))" by simp
    from Cons.IH [OF this] Suc show ?thesis by (simp add: text_total_Cons)
  qed
qed

lemma evict_loop_eq:
  "distinct (map fst items) \<Longrightarrow> fst ` set items \<subseteq> fst ` set (objs h r) \<Longrightarrow>
   evict_loop limit r items (h, t, ev) =
     Inr (h\<lparr>objs := (objs h)(r := filter (\<lambda>e. fst e \<notin> fst ` set (take (evict_count limit items t) items))
                                  (objs h r))\<rparr>,
          t - text_total (take (evict_count limit items t) items),
          ev @ take (evict_count limit items t) items)"
proof (induction items arbitrary: h t ev)
  case Nil
  show ?case by (simp add: text_total_Nil)
next
  case (Cons x rest)
  obtain url tx where x: "x = (url, tx)" by (cases x)
  show ?case
  proof (cases "t \<le> limit")
    case True
    then show ?thesis by (simp add: x text_total_Nil)
  next
    case False
    let ?h = "h\<lparr>objs := (objs h)(r := filter (\<lambda>e. fst e \<noteq> url) (objs h r))\<rparr>"
    from Cons.prems have mem: "url \<in> set (map fst (objs h r))" by (auto simp: x)
    then have del: "dict_del h r url = Inr ?h" by (simp add: dict_del_def)
    from Cons.prems have dist: "distinct (map fst rest)" and notin: "url \<notin> fst ` set rest"
      by (auto simp: x)
    have sub: "fst ` set rest \<subseteq> fst ` set (objs ?h r)"
    proof
      fix k assume k: "k \<in> fst ` set rest"
      with Cons.prems have "k \<in> fst ` set (objs h r)" by auto
      then obtain e where e: "e \<in> set (objs h r)" "fst e = k" by auto
      from k notin have "k \<noteq> url" by auto
      with e have "e \<in> set (objs ?h r)" by simp
      then have "fst e \<in> fst ` set (objs ?h r)" by (rule imageI)
      with e show "k \<in> fst ` set (objs ?h r)" by simp
    qed
    note ih = Cons.IH [OF dist sub, of "t - int (length tx)" "ev @ [(url, tx)]"]
    define K where "K = take (evict_count limit rest (t - int (length tx))) rest"
    define A where "A = filter (\<lambda>e. fst e \<noteq> url) (objs h r)"
    define B where "B = filter (\<lambda>e. fst e \<notin> fst ` set ((url, tx) # K)) (objs h r)"
    have AB: "filter (\<lambda>e. fst e \<notin> fst ` set K) A = B"
      unfolding A_def B_def by (simp add: filter_keys_Cons [of "(url, tx)", simplified])
    have h_objs: "objs ?h = (objs h)(r := A)" by (simp add: A_def)
    have heq: "?h\<lparr>objs := (objs ?h)(r := filter (\<lambda>e. fst e \<notin> fst ` set K) (objs ?h r))\<rparr>
                 = h\<lparr>objs := (objs h)(r := B)\<rparr>"
      unfolding h_objs by (simp add: AB)
    have cnt: "take (evict_count limit (x # rest) t) (x # rest) = (url, tx) # K"
      using False by (simp add: x K_def)
    have tot: "t - int (length tx) - text_total K = t - text_total ((url, tx) # K)"
      by (simp add: text_total_Cons)
    have step: "evict_loop limit r (x # rest) (h, t, ev)
            = evict_loop limit r rest (?h, t - int (length tx), ev @ [(url, tx)])"
      using False del by (simp add: x)
    have "evict_loop limit r rest (?h, t - int (length tx), ev @ [(url, tx)])
            = Inr (h\<lparr>objs := (objs h)(r := B)\<rparr>, t - text_total ((url, tx) # K), ev @ (url, tx) # K)"
      using ih unfolding K_def [symmetric] heq tot by simp
    with step show ?thesis
      unfolding cnt B_def by (rule trans)
  qed
qed

section \<open>The enforcer in closed form\<close>

lemma set_sorted_items: "set (sorted_items d) = set d"
  by (simp add: sorted_items_def)

lemma length_sorted_items: "length (sorted_items d) = length d"
  by (simp add: sorted_items_def)

lemma distinct_map_insort_key:
  "distinct (map g (insort_key f x xs)) = (g x \<notin> g ` set xs \<and> distinct (map g xs))"
  by (induction xs) (auto simp: set_insort_key)

lemma distinct_map_sort_key: "distinct (map g (sort_key f xs)) = distinct (map g xs)"
  by (induction xs) (simp_all add: distinct_map_insort_key)

lemma wf_sorted_items: "wf_dict d \<Longrightarrow> distinct (map fst (sorted_items d))"
  by (simp add: wf_dict_def sorted_items_def distinct_map_sort_key)

lemma evictions_Nil: "int (length (py_str_dict d)) \<le> limit \<Longrightarrow> evictions limit d = []"
  by (cases "sorted_items d") (simp_all add: evictions_def)

lemma trimmed_id: "int (length (py_str_dict d)) \<le> limit \<Longrightarrow> trimmed limit d = d"
  by (simp add: trimmed_def evictions_Nil)

lemma set_evictions: "set (evictions limit d) \<subseteq> set d"
  using set_take_subset [of _ "sorted_items d"] by (auto simp: evictions_def set_sorted_items)

lemma wf_evictions: "wf_dict d \<Longrightarrow> distinct (map fst (evictions limit d))"
  unfolding evictions_def take_map [symmetric] by (rule distinct_take) (rule wf_sorted_items)

lemma enforce_run_eq:
  assumes wf: "wf_dict (objs h a)"
  shows "enforce_run limit h a =
     Inr (h\<lparr>objs := (objs h)(next_ref h := trimmed limit (objs h a)), next_ref := Suc (next_ref h)\<rparr>,
          next_ref h,
          int (length (py_str_dict (objs h a))) - text_total (evictions limit (objs h a)),
          evictions limit (objs h a))"
proof -
  define d where "d = objs h a"
  define c where "c = next_ref h"
  define h1 where "h1 = h\<lparr>objs := (objs h)(c := d), next_ref := Suc c\<rparr>"
  define sz where "sz = int (length (py_str_dict d))"
  have copy: "dict_copy h a = (h1, c)"
    by (simp add: dict_copy_def h1_def c_def d_def)
  have h1c: "objs h1 c = d" by (simp add: h1_def)
  have upd: "h1\<lparr>objs := (objs h1)(c := X)\<rparr> = h\<lparr>objs := (objs h)(c := X), next_ref := Suc c\<rparr>" for X
    by (simp add: h1_def)
  show ?thesis
  proof (cases "limit < sz")
    case True
    have dist: "distinct (map fst (sorted_items d))"
      using wf by (simp add: d_def wf_sorted_items)
    have sub: "fst ` set (sorted_items d) \<subseteq> fst ` set (objs h1 c)"
      by (simp add: h1c set_sorted_items)
    have loop: "evict_loop limit c (sorted_items d) (h1, sz, []) =
        Inr (h\<lparr>objs := (objs h)(c := trimmed limit d), next_ref := Suc c\<rparr>,
             sz - text_total (evictions limit d), evictions limit d)"
      unfolding evict_loop_eq [OF dist sub] h1c upd
      by (simp add: trimmed_def evictions_def sz_def)
    show ?thesis
      unfolding d_def [symmetric] c_def [symmetric] sz_def [symmetric]
      using True loop by (simp add: enforce_run_def copy h1c sz_def [symmetric])
  next
    case False
    then have le: "int (length (py_str_dict d)) \<le> limit" by (simp add: sz_def)
    show ?thesis
      unfolding d_def [symmetric] c_def [symmetric] sz_def [symmetric]
      using False
      by (simp add: enforce_run_def copy h1c sz_def [symmetric] trimmed_id [OF le] evictions_Nil [OF le]
          text_total_Nil h1_def)
  qed
qed

lemma trimmed_all:
  "evictions limit d = sorted_items d \<Longrightarrow> trimmed limit d = []"
proof -
  assume ev: "evictions limit d = sorted_items d"
  have "\<forall>e\<in>set d. \<not> fst e \<notin> fst ` set d" by simp
  then have "filter (\<lambda>e. fst e \<notin> fst ` set d) d = []" by (simp only: filter_False)
  then show ?thesis by (simp add: trimmed_def ev set_sorted_items)
qed

lemma trimmed_size:
  assumes wf: "wf_dict d"
  shows "int (length (py_str_dict (trimmed limit d)))
           \<le> int (length (py_str_dict d)) - text_total (evictions limit d)"
  unfolding trimmed_def
  by (rule py_str_dict_del_all [OF wf_evictions [OF wf] set_evictions])

lemma evictions_stop:
  "int (length (py_str_dict d)) - text_total (evictions limit d) \<le> limit
     \<or> evictions limit d = sorted_items d"
proof -
  let ?n = "evict_count limit (sorted_items d) (int (length (py_str_dict d)))"
  from evict_count_stop [of "int (length (py_str_dict d))" limit "sorted_items d"]
  show ?thesis
  proof
    assume "int (length (py_str_dict d)) - text_total (take ?n (sorted_items d)) \<le> limit"
    then show ?thesis by (simp add: evictions_def)
  next
    assume "?n = length (sorted_items d)"
    then have "evictions limit d = sorted_items d" by (simp add: evictions_def)
    then show ?thesis by simp
  qed
qed

section \<open>Order of the evictions\<close>

lemma sorted_items_desc:
  "sorted_wrt (\<lambda>x y. length (snd y) \<le> length (snd x)) (sorted_items d)"
proof -
  have "sorted (map (\<lambda>x. - int (length (snd x))) (sorted_items d))"
    unfolding sorted_items_def by (rule sorted_sort_key)
  then have "sorted_wrt (\<lambda>x y. - int (length (snd x)) \<le> - int (length (snd y))) (sorted_items d)"
    by (simp add: sorted_map)
  then show ?thesis by (rule sorted_wrt_mono_rel [rotated]) simp
qed

lemma evictions_prefix: "prefix (evictions limit d) (sorted_items d)"
  unfolding evictions_def by (rule take_is_prefix)

lemma evictions_desc:
  "sorted_wrt (\<lambda>x y. length (snd y) \<le> length (snd x)) (evictions limit d)"
  unfolding evictions_def by (rule sorted_wrt_take) (rule sorted_items_desc)

lemma evictions_longest:
  assumes x: "x \<in> set (evictions limit d)" and e: "e \<in> set d" and kept: "e \<notin> set (evictions limit d)"
  shows "length (snd e) \<le> length (snd x)"
proof -
  from evictions_prefix [of limit d] obtain rest
    where split: "sorted_items d = evictions limit d @ rest" by (auto simp: prefix_def)
  from e have "e \<in> set (sorted_items d)" by (simp add: set_sorted_items)
  with split kept have "e \<in> set rest" by auto
  moreover from sorted_items_desc [of d] split
  have "\<forall>x\<in>set (evictions limit d). \<forall>y\<in>set rest. length (snd y) \<le> length (snd x)"
    by (simp add: sorted_wrt_append)
  ultimately show ?thesis using x by blast
qed

lemma wf_keys_inj: "wf_dict d \<Longrightarrow> inj_on fst (set d)"
  by (simp add: wf_dict_def distinct_map)

lemma trimmed_by_items:
  assumes wf: "wf_dict d"
  shows "trimmed limit d = filter (\<lambda>e. e \<notin> set (evictions limit d)) d"
  unfolding trimmed_def
proof (rule filter_cong [OF refl])
  fix e assume e: "e \<in> set d"
  show "(fst e \<notin> fst ` set (evictions limit d)) = (e \<notin> set (evictions limit d))"
  proof -
    have "fst e \<in> fst ` set (evictions limit d) \<Longrightarrow> e \<in> set (evictions limit d)"
    proof -
      assume "fst e \<in> fst ` set (evictions limit d)"
      then obtain x where x: "x \<in> set (evictions limit d)" "fst x = fst e" by auto
      with set_evictions [of limit d] have "x \<in> set d" by auto
      with wf_keys_inj [OF wf] e x have "x = e" by (auto dest: inj_onD)
      with x show ?thesis by simp
    qed
    then show ?thesis by auto
  qed
qed

lemma distinct_evictions: "wf_dict d \<Longrightarrow> distinct (evictions limit d)"
  using wf_evictions [of d limit] by (simp add: distinct_map)

lemma length_trimmed:
  assumes wf: "wf_dict d"
  shows "length (trimmed limit d) + length (evictions limit d) = length d"
proof -
  let ?ev = "evictions limit d"
  from wf have dd: "distinct d" by (simp add: wf_dict_def distinct_map)
  have "length (filter (\<lambda>e. e \<in> set ?ev) d) = card ({e. e \<in> set ?ev} \<inter> set d)"
    by (rule distinct_length_filter [OF dd])
  also have "{e. e \<in> set ?ev} \<inter> set d = set ?ev" using set_evictions [of limit d] by auto
  also have "card (set ?ev) = length ?ev" by (rule distinct_card [OF distinct_evictions [OF wf]])
  finally have "length (filter (\<lambda>e. e \<in> set ?ev) d) = length ?ev" .
  moreover have "length (filter (\<lambda>e. e \<in> set ?ev) d) + length (filter (\<lambda>e. \<not> e \<in> set ?ev) d) = length d"
    by (rule sum_length_filter_compl)
  ultimately show ?thesis by (simp add: trimmed_by_items [OF wf])
qed

lemma evictions_running:
  assumes m: "m < length (evictions limit d)"
  shows "limit < int (length (py_str_dict d)) - text_total (take m (evictions limit d))"
proof -
  let ?n = "evict_count limit (sorted_items d) (int (length (py_str_dict d)))"
  from m have mn: "m < ?n" by (simp add: evictions_def)
  then have "take m (evictions limit d) = take m (sorted_items d)"
    by (simp add: evictions_def min_def)
  with evict_count_running [OF mn] show ?thesis by simp
qed

lemma evictions_stable:
  "prefix (filter (\<lambda>e. length (snd e) = n) (evictions limit d)) (filter (\<lambda>e. length (snd e) = n) d)"
proof -
  have "filter (\<lambda>e. - int (length (snd e)) = - int n) (sorted_items d)
          = filter (\<lambda>e. - int (length (snd e)) = - int n) d"
    unfolding sorted_items_def by (rule sort_key_stable)
  then have "filter (\<lambda>e. length (snd e) = n) (sorted_items d) = filter (\<lambda>e. length (snd e) = n) d"
    by simp
  with filter_mono_prefix [OF evictions_prefix [of limit d], of "\<lambda>e. length (snd e) = n"]
  show ?thesis by simp
qed

section \<open>The request handler: auxiliary facts\<close>

lemma evict_loop_error:
  "evict_loop limit r items s = Inl e \<Longrightarrow> \<exists>k. e = KeyError k"
proof (induction limit r items s rule: evict_loop.induct)
  case (1 limit r s)
  then show ?case by simp
next
  case (2 limit r url tx rest h total_text_length evicted)
  then show ?case
    by (auto simp: dict_del_def split: if_splits)
qed

lemma enforce_run_error: "enforce_run limit h a = Inl e \<Longrightarrow> \<exists>k. e = KeyError k"
  by (auto simp: enforce_run_def dict_copy_def Let_def split: if_splits sum.splits dest: evict_loop_error)

lemma enforce_site_data_limit_error:
  "enforce_site_data_limit h a = Inl e \<Longrightarrow> \<exists>k. e = KeyError k"
  by (auto simp: enforce_site_data_limit_def split: sum.splits dest: enforce_run_error)

lemma enforce_site_data_limit_eq:
  "wf_dict (objs h a) \<Longrightarrow>
   enforce_site_data_limit h a =
     Inr (h\<lparr>objs := (objs h)(next_ref h := trimmed MAX_TEXT_LENGTH (objs h a)),
            next_ref := Suc (next_ref h)\<rparr>, next_ref h)"
  by (simp add: enforce_site_data_limit_def enforce_run_eq)

lemma details_differ: "refusal_detail \<noteq> too_long_detail"
  by (simp add: refusal_detail_def too_long_detail_def)

lemma ask_question_too_long_iff:
  "(ask_question W parse h a q = Inl (HTTPException 400 too_long_detail)) = (500 < length q)"
proof (cases "500 < length q")
  case True
  then show ?thesis by (simp add: ask_question_def)
next
  case False
  have "ask_question W parse h a q \<noteq> Inl (HTTPException 400 too_long_detail)"
    using False details_differ
    by (auto simp: ask_question_def split: sum.splits list.splits option.splits
        dest: enforce_site_data_limit_error)
  with False show ?thesis by simp
qed

lemma ask_question_success:
  assumes "length q \<le> 500"
    and "enforce_site_data_limit h a = Inr (h1, r)"
    and "parse (messages W (objs h1 r) q) = Inr reply"
    and "choices reply = m # ms"
    and "\<not> truthy (refusal m)"
    and "usage reply = Some u"
  shows "ask_question W parse h a q =
           Inr (h1, \<lparr>user_question = q, answer = content m,
                     input_tokens = map_of u ''prompt_tokens'',
                     output_tokens = map_of u ''completion_tokens'',
                     sources = map fst (objs h1 r)\<rparr>)"
  using assms by (simp add: ask_question_def)

lemma ask_question_refusal_iff:
  assumes "length q \<le> 500"
    and "enforce_site_data_limit h a = Inr (h1, r)"
    and "parse (messages W (objs h1 r) q) = Inr reply"
    and "choices reply = m # ms"
  shows "(ask_question W parse h a q = Inl (HTTPException 400 refusal_detail)) = truthy (refusal m)"
  using assms by (auto simp: ask_question_def split: option.splits)

lemma ask_question_sources:
  assumes "ask_question W parse h a q = Inr (h', res)"
  shows "\<exists>r reply. enforce_site_data_limit h a = Inr (h', r)
           \<and> parse (messages W (objs h' r) q) = Inr reply
           \<and> sources res = map fst (objs h' r)"
  using assms
  by (auto simp: ask_question_def split: if_splits sum.splits list.splits option.splits)

section \<open>The message sent to the model\<close>

lemma sublist_trans: "sublist xs ys \<Longrightarrow> sublist ys zs \<Longrightarrow> sublist xs zs"
  by (rule sublist_order.order.trans)

lemma user_content_split:
  "user_content W d q =
     (''I have the following site data available, which is about the website '' @ [squote] @
        format_website W @ [squote] @ ''. '' @
      ''Please read through the data and answer the following question: '' @ [CHR 0x0A, CHR 0x0A] @
      ''Website data:'' @ [CHR 0x0A, CHR 0x0A])
     @ py_str_dict d
     @ ([CHR 0x0A, CHR 0x0A] @ ''Question: '' @ q @ [CHR 0x0A] @
        ''Provide a clear and concise answer based on the information above.'')"
  by (simp add: user_content_def)

lemma sublist_dict_user_content: "sublist (py_str_dict d) (user_content W d q)"
  unfolding user_content_split by (rule sublist_appendI)

lemma sublist_join_comma: "x \<in> set xs \<Longrightarrow> sublist x (join_comma xs)"
proof (induction xs rule: join_comma.induct)
  case 1
  then show ?case by simp
next
  case (2 y)
  then show ?case by simp
next
  case (3 y z zs)
  show ?case
  proof (cases "x = y")
    case True
    then show ?thesis by simp
  next
    case False
    with 3 have "sublist x (join_comma (z # zs))" by simp
    moreover have "sublist (join_comma (z # zs)) ((y @ '', '') @ join_comma (z # zs))"
      by (rule sublist_append_leftI)
    ultimately have "sublist x ((y @ '', '') @ join_comma (z # zs))"
      by (rule sublist_trans)
    then show ?thesis by simp
  qed
qed

lemma sublist_key_dict:
  assumes "k \<in> fst ` set d"
  shows "sublist (py_repr k) (py_str_dict d)"
proof -
  from assms obtain e where e: "e \<in> set d" "fst e = k" by auto
  have "sublist (py_repr k) (repr_item e)"
    using e by (simp add: repr_item_def)
  moreover have "sublist (repr_item e) (join_comma (map repr_item d))"
    using e by (intro sublist_join_comma) simp
  moreover have "sublist (join_comma (map repr_item d)) (py_str_dict d)"
    unfolding py_str_dict_def by (rule sublist_appendI)
  ultimately show ?thesis by (blast intro: sublist_trans)
qed

lemma ask_question_parse_cong:
  assumes "enforce_site_data_limit h a = Inr (h1, r)"
    and "parse' (messages W (objs h1 r) q) = parse (messages W (objs h1 r) q)"
  shows "ask_question W parse' h a q = ask_question W parse h a q"
  using assms by (simp add: ask_question_def)

lemma expected_message: "user_content None [(''b'', ''y'')] ''hi'' = expected_user_message"
  by code_simp

lemma expected_has_b: "sublist (py_repr ''b'') expected_user_message"
  by code_simp

lemma expected_lacks_a: "\<not> sublist (py_repr ''a'') expected_user_message"
  by code_simp

section \<open>The example corpus above the limit\<close>

lemma py_repr_replicate_x:
  "py_repr (replicate n CHR ''x'') = squote # replicate n CHR ''x'' @ [squote]"
proof -
  have q: "repr_quote (replicate n CHR ''x'') = squote"
    by (simp add: repr_quote_def squote_def)
  have c: "repr_char squote CHR ''x'' = ''x''"
    by (simp add: repr_char_def squote_def backslash_def)
  have "concat (map (repr_char squote) (replicate n CHR ''x'')) = replicate n CHR ''x''"
    by (induction n) (simp_all add: c)
  with q show ?thesis by (simp add: py_repr_def)
qed

lemma size_big_corpus: "int (length (py_str_dict big_corpus)) = 196019"
proof -
  have a: "length (py_repr ''a'') = 3" by code_simp
  have b: "length (py_repr ''b'') = 3" by code_simp
  have y: "length (py_repr ''y'') = 3" by code_simp
  show ?thesis
    by (simp add: big_corpus_def py_str_dict_def repr_item_def py_repr_replicate_x a b y)
qed

lemma sorted_big_corpus: "sorted_items big_corpus = big_corpus"
  by (simp add: sorted_items_def big_corpus_def)

lemma evictions_big_corpus:
  "evictions MAX_TEXT_LENGTH big_corpus = [(''a'', replicate 196000 CHR ''x'')]"
  unfolding evictions_def size_big_corpus sorted_big_corpus
  by (simp add: big_corpus_def MAX_TEXT_LENGTH_def)

lemma trimmed_big_corpus: "trimmed MAX_TEXT_LENGTH big_corpus = [(''b'', ''y'')]"
  unfolding trimmed_def evictions_big_corpus by (simp add: big_corpus_def)

lemma wf_big_corpus: "wf_dict big_corpus"
  by (simp add: big_corpus_def wf_dict_def)

lemma small_corpus_fits:
  "int (length (py_str_dict [(''a'', ''xx''), (''b'', ''y''), (''c'', ''zz'')])) \<le> MAX_TEXT_LENGTH"
  by code_simp

lemma enforce_small_corpus:
  "enforce_site_data_limit (single_heap [(''a'', ''xx''), (''b'', ''y''), (''c'', ''zz'')]) 0
     = Inr ((single_heap [(''a'', ''xx''), (''b'', ''y''), (''c'', ''zz'')])
              \<lparr>objs := (objs (single_heap [(''a'', ''xx''), (''b'', ''y''), (''c'', ''zz'')]))
                         (1 := [(''a'', ''xx''), (''b'', ''y''), (''c'', ''zz'')]),
               next_ref := 2\<rparr>, 1)"
proof -
  have wf: "wf_dict (objs (single_heap [(''a'', ''xx''), (''b'', ''y''), (''c'', ''zz'')]) 0)"
    by code_simp
  show ?thesis
    unfolding enforce_site_data_limit_eq [OF wf]
    by (simp add: single_heap_def trimmed_id [OF small_corpus_fits])
qed

lemma enforce_big_corpus:
  "enforce_site_data_limit (single_heap big_corpus) 0
     = Inr ((single_heap big_corpus)
              \<lparr>objs := (objs (single_heap big_corpus))(1 := [(''b'', ''y'')]), next_ref := 2\<rparr>, 1)"
proof -
  have wf: "wf_dict (objs (single_heap big_corpus) 0)"
    by (simp add: single_heap_def wf_big_corpus)
  show ?thesis
    unfolding enforce_site_data_limit_eq [OF wf]
    by (simp add: single_heap_def trimmed_big_corpus)
qed

section \<open>The enforcer with the limit of the module\<close>

text \<open>
  \<open>enforce_site_data_limit\<close> is \<open>enforce_run\<close> at \<open>MAX_TEXT_LENGTH\<close> without the final total and
  the trace, so what is proved of \<open>enforce_run\<close> for every limit holds of it.
\<close>

lemma enforce_site_data_limit_run:
  "(enforce_site_data_limit h a = Inr (h', r))
     = (\<exists>t ev. enforce_run MAX_TEXT_LENGTH h a = Inr (h', r, t, ev))"
  by (auto simp: enforce_site_data_limit_def split: sum.splits)

text \<open>
  The empty dict prints as \<^verbatim>\<open>{}\<close>, two characters. With the limit of the module the
  returned dict is therefore always within the limit, also when it is empty.
\<close>

lemma enforce_site_data_limit_within:
  assumes wf: "wf_dict (objs h a)"
  shows "\<exists>h' r. enforce_site_data_limit h a = Inr (h', r)
           \<and> int (length (py_str_dict (objs h' r))) \<le> MAX_TEXT_LENGTH"
proof -
  let ?d = "objs h a"
  let ?h' = "h\<lparr>objs := (objs h)(next_ref h := trimmed MAX_TEXT_LENGTH ?d),
               next_ref := Suc (next_ref h)\<rparr>"
  have res: "objs ?h' (next_ref h) = trimmed MAX_TEXT_LENGTH ?d" by simp
  have empty: "int (length (py_str_dict [])) \<le> MAX_TEXT_LENGTH"
    by (simp add: py_str_dict_def MAX_TEXT_LENGTH_def)
  have "int (length (py_str_dict (trimmed MAX_TEXT_LENGTH ?d))) \<le> MAX_TEXT_LENGTH"
  proof (cases "evictions MAX_TEXT_LENGTH ?d = sorted_items ?d")
    case True
    then show ?thesis using trimmed_all [of MAX_TEXT_LENGTH ?d] empty by simp
  next
    case False
    with evictions_stop [of ?d MAX_TEXT_LENGTH] trimmed_size [OF wf, of MAX_TEXT_LENGTH]
    show ?thesis by simp
  qed
  with res enforce_site_data_limit_eq [OF wf] show ?thesis by simp
qed

text \<open>
  Two observations on the loop. The running total drops by the text length alone, less
  than the serialized size drops, so the loop can empty the dict although an entry would
  fit: here \<^verbatim>\<open>{'b': 'y'}\<close> has size 10 and the limit is 25. And the order of insertion
  decides between entries of equal text length: the same three entries inserted in the
  reverse order lose \<open>c\<close> where the first dict loses \<open>a\<close>.
\<close>

lemma enforce_run_empties_early:
  "int (length (py_str_dict [(''b'', ''y'')])) \<le> 25
   \<and> (case enforce_run 25 (single_heap [(''a'', ''xx''), (''b'', ''y''), (''c'', ''zz'')]) 0 of
         Inl e \<Rightarrow> False
       | Inr (h', r, t, ev) \<Rightarrow> objs h' r = [] \<and> t = 27)"
  by code_simp

lemma enforce_run_insertion_order:
  "(case enforce_run 30 (single_heap [(''a'', ''xx''), (''b'', ''y''), (''c'', ''zz'')]) 0 of
      Inl e \<Rightarrow> False
    | Inr (h', r, t, ev) \<Rightarrow> ev = [(''a'', ''xx'')])
   \<and> (case enforce_run 30 (single_heap [(''c'', ''zz''), (''b'', ''y''), (''a'', ''xx'')]) 0 of
      Inl e \<Rightarrow> False
    | Inr (h', r, t, ev) \<Rightarrow> ev = [(''c'', ''zz'')])"
  by code_simp

section \<open>The budget enforcer: claims\<close>

text \<open>
  C1. A corpus whose serialized size \<^verbatim>\<open>len(str(d))\<close> is above the limit: the enforcer returns
  (it raises nothing on a dict, whose keys are distinct), and the dict it returns has a
  serialized size of at most the limit, or is empty. The statement holds for every limit,
  hence for \<open>MAX_TEXT_LENGTH\<close>.
\<close>

theorem enforce_over_budget:
  assumes wf: "wf_dict (objs h a)"
    and over: "limit < int (length (py_str_dict (objs h a)))"
  shows "\<exists>h' r t ev. enforce_run limit h a = Inr (h', r, t, ev)
           \<and> (int (length (py_str_dict (objs h' r))) \<le> limit \<or> objs h' r = [])"
proof -
  let ?d = "objs h a"
  let ?h' = "h\<lparr>objs := (objs h)(next_ref h := trimmed limit ?d), next_ref := Suc (next_ref h)\<rparr>"
  have res: "objs ?h' (next_ref h) = trimmed limit ?d" by simp
  have "int (length (py_str_dict (trimmed limit ?d))) \<le> limit \<or> trimmed limit ?d = []"
    using evictions_stop [of ?d limit] trimmed_size [OF wf, of limit] trimmed_all [of limit ?d]
    by auto
  with res have "int (length (py_str_dict (objs ?h' (next_ref h)))) \<le> limit
                   \<or> objs ?h' (next_ref h) = []"
    by simp
  with enforce_run_eq [OF wf, of limit] show ?thesis by blast
qed

text \<open>
  The example: three entries of serialized size 32 and the limit 30. The entry \<open>a\<close> goes,
  the running total is then 30 and the loop stops.
\<close>

theorem enforce_over_budget_witness:
  "wf_dict (objs (single_heap [(''a'', ''xx''), (''b'', ''y''), (''c'', ''zz'')]) 0)
   \<and> 30 < int (length (py_str_dict (objs (single_heap [(''a'', ''xx''), (''b'', ''y''), (''c'', ''zz'')]) 0)))
   \<and> (\<exists>h' r t ev. enforce_run 30 (single_heap [(''a'', ''xx''), (''b'', ''y''), (''c'', ''zz'')]) 0 = Inr (h', r, t, ev)
         \<and> (int (length (py_str_dict (objs h' r))) \<le> 30 \<or> objs h' r = []))
   \<and> (case enforce_run 30 (single_heap [(''a'', ''xx''), (''b'', ''y''), (''c'', ''zz'')]) 0 of
         Inl e \<Rightarrow> False
       | Inr (h', r, t, ev) \<Rightarrow>
           objs h' r = [(''b'', ''y''), (''c'', ''zz'')] \<and> t = 30 \<and> ev = [(''a'', ''xx'')])"
proof -
  let ?h = "single_heap [(''a'', ''xx''), (''b'', ''y''), (''c'', ''zz'')]"
  have wf: "wf_dict (objs ?h 0)" by code_simp
  have over: "30 < int (length (py_str_dict (objs ?h 0)))" by code_simp
  have run: "case enforce_run 30 ?h 0 of
         Inl e \<Rightarrow> False
       | Inr (h', r, t, ev) \<Rightarrow>
           objs h' r = [(''b'', ''y''), (''c'', ''zz'')] \<and> t = 30 \<and> ev = [(''a'', ''xx'')]"
    by code_simp
  from enforce_over_budget [OF wf over] wf over run show ?thesis by blast
qed

text \<open>
  C2. A corpus whose serialized size is at most the limit: the enforcer returns a dict with
  the items of the input, in their order, and evicts nothing. The returned dict is the copy
  made at a fresh reference.
\<close>

theorem enforce_within_budget:
  assumes le: "int (length (py_str_dict (objs h a))) \<le> limit"
  shows "\<exists>h' r. enforce_run limit h a = Inr (h', r, int (length (py_str_dict (objs h a))), [])
           \<and> objs h' r = objs h a \<and> r = next_ref h"
  using le by (simp add: enforce_run_def dict_copy_def)

theorem enforce_within_budget_witness:
  "int (length (py_str_dict (objs (single_heap [(''a'', ''xx''), (''b'', ''y''), (''c'', ''zz'')]) 0))) \<le> 32
   \<and> (\<exists>h' r. enforce_run 32 (single_heap [(''a'', ''xx''), (''b'', ''y''), (''c'', ''zz'')]) 0
                 = Inr (h', r, int (length (py_str_dict (objs (single_heap [(''a'', ''xx''), (''b'', ''y''), (''c'', ''zz'')]) 0))), [])
         \<and> objs h' r = objs (single_heap [(''a'', ''xx''), (''b'', ''y''), (''c'', ''zz'')]) 0 \<and> r = next_ref (single_heap [(''a'', ''xx''), (''b'', ''y''), (''c'', ''zz'')]))"
proof -
  let ?h = "single_heap [(''a'', ''xx''), (''b'', ''y''), (''c'', ''zz'')]"
  have le: "int (length (py_str_dict (objs ?h 0))) \<le> 32" by code_simp
  from enforce_within_budget [OF le] le show ?thesis by blast
qed

text \<open>
  C8. The enforcer leaves the caller's dict as it was: it works on a copy at a fresh
  reference, different from the reference of the input, and changes no object that was
  allocated before the call.
\<close>

theorem enforce_leaves_input:
  assumes wf: "wf_dict (objs h a)" and alloc: "a < next_ref h"
  shows "\<exists>h' r t ev. enforce_run limit h a = Inr (h', r, t, ev)
           \<and> r \<noteq> a \<and> objs h' a = objs h a \<and> (\<forall>x. x \<noteq> r \<longrightarrow> objs h' x = objs h x)"
proof -
  let ?h' = "h\<lparr>objs := (objs h)(next_ref h := trimmed limit (objs h a)),
               next_ref := Suc (next_ref h)\<rparr>"
  from alloc have ne: "next_ref h \<noteq> a" by simp
  then have "objs ?h' a = objs h a" by simp
  moreover have "\<forall>x. x \<noteq> next_ref h \<longrightarrow> objs ?h' x = objs h x" by simp
  ultimately show ?thesis using enforce_run_eq [OF wf, of limit] ne by blast
qed

theorem enforce_leaves_input_witness:
  "wf_dict (objs (single_heap [(''a'', ''xx''), (''b'', ''y''), (''c'', ''zz'')]) 0) \<and> 0 < next_ref (single_heap [(''a'', ''xx''), (''b'', ''y''), (''c'', ''zz'')])
   \<and> (\<exists>h' r t ev. enforce_run 30 (single_heap [(''a'', ''xx''), (''b'', ''y''), (''c'', ''zz'')]) 0 = Inr (h', r, t, ev)
         \<and> r \<noteq> 0 \<and> objs h' 0 = objs (single_heap [(''a'', ''xx''), (''b'', ''y''), (''c'', ''zz'')]) 0
         \<and> (\<forall>x. x \<noteq> r \<longrightarrow> objs h' x = objs (single_heap [(''a'', ''xx''), (''b'', ''y''), (''c'', ''zz'')]) x))
   \<and> (case enforce_run 30 (single_heap [(''a'', ''xx''), (''b'', ''y''), (''c'', ''zz'')]) 0 of
         Inl e \<Rightarrow> False
       | Inr (h', r, t, ev) \<Rightarrow>
           objs h' 0 = [(''a'', ''xx''), (''b'', ''y''), (''c'', ''zz'')] \<and> objs h' r = [(''b'', ''y''), (''c'', ''zz'')])"
proof -
  let ?h = "single_heap [(''a'', ''xx''), (''b'', ''y''), (''c'', ''zz'')]"
  have wf: "wf_dict (objs ?h 0)" by code_simp
  have alloc: "0 < next_ref ?h" by code_simp
  have run: "case enforce_run 30 ?h 0 of
         Inl e \<Rightarrow> False
       | Inr (h', r, t, ev) \<Rightarrow>
           objs h' 0 = [(''a'', ''xx''), (''b'', ''y''), (''c'', ''zz'')] \<and> objs h' r = [(''b'', ''y''), (''c'', ''zz'')]"
    by code_simp
  from enforce_leaves_input [OF wf alloc, of 30] wf alloc run show ?thesis by blast
qed

text \<open>
  C4. The enforcer is deterministic: two runs on dicts with the same items in the same
  order and with the same limit, in whatever stores and at whatever references, both
  return, with the same items in the returned dict, the same final total and the same
  entries evicted in the same order.
\<close>

theorem enforce_deterministic:
  assumes wf: "wf_dict (objs h a)" and same: "objs h' a' = objs h a"
  shows "\<exists>h1 r1 h2 r2 t ev.
           enforce_run limit h a = Inr (h1, r1, t, ev)
           \<and> enforce_run limit h' a' = Inr (h2, r2, t, ev)
           \<and> objs h1 r1 = objs h2 r2"
proof -
  from wf same have wf': "wf_dict (objs h' a')" by simp
  let ?h1 = "h\<lparr>objs := (objs h)(next_ref h := trimmed limit (objs h a)),
               next_ref := Suc (next_ref h)\<rparr>"
  let ?h2 = "h'\<lparr>objs := (objs h')(next_ref h' := trimmed limit (objs h a)),
               next_ref := Suc (next_ref h')\<rparr>"
  have "objs ?h1 (next_ref h) = objs ?h2 (next_ref h')" by simp
  with enforce_run_eq [OF wf, of limit] enforce_run_eq [OF wf', of limit, unfolded same]
  show ?thesis by blast
qed

text \<open>The example: the same corpus in two different stores, at the references 0 and 3.\<close>

theorem enforce_deterministic_witness:
  "wf_dict (objs (single_heap [(''a'', ''xx''), (''b'', ''y''), (''c'', ''zz'')]) 0)
   \<and> objs \<lparr>objs = (\<lambda>r. if r = 3 then [(''a'', ''xx''), (''b'', ''y''), (''c'', ''zz'')] else [(''z'', ''q'')]), next_ref = 7\<rparr> 3
       = objs (single_heap [(''a'', ''xx''), (''b'', ''y''), (''c'', ''zz'')]) 0
   \<and> (\<exists>h1 r1 h2 r2 t ev.
         enforce_run 30 (single_heap [(''a'', ''xx''), (''b'', ''y''), (''c'', ''zz'')]) 0 = Inr (h1, r1, t, ev)
         \<and> enforce_run 30 \<lparr>objs = (\<lambda>r. if r = 3 then [(''a'', ''xx''), (''b'', ''y''), (''c'', ''zz'')] else [(''z'', ''q'')]), next_ref = 7\<rparr> 3
             = Inr (h2, r2, t, ev)
         \<and> objs h1 r1 = objs h2 r2)"
proof -
  let ?h = "single_heap [(''a'', ''xx''), (''b'', ''y''), (''c'', ''zz'')]"
  let ?h' = "\<lparr>objs = (\<lambda>r. if r = 3 then [(''a'', ''xx''), (''b'', ''y''), (''c'', ''zz'')] else [(''z'', ''q'')]), next_ref = 7\<rparr>"
  have wf: "wf_dict (objs ?h 0)" by code_simp
  have same: "objs ?h' 3 = objs ?h 0" by code_simp
  from enforce_deterministic [OF wf same, of 30] wf same show ?thesis by blast
qed

text \<open>
  C3. Entries are evicted whole and one at a time: the trace of evictions has no entry
  twice, the returned dict is the input without the entries of the trace, and its length
  is the length of the input less the number of evictions. The trace is an initial
  segment of the items sorted by text length, longest first: text lengths never increase
  along it, and no entry that is kept has a longer text than an evicted one. Every
  eviction happens while the running total is above the limit, and at the end the running
  total is at most the limit or the corpus is exhausted.
\<close>

theorem enforce_eviction_order:
  assumes wf: "wf_dict (objs h a)"
  shows "\<exists>h' r t ev. enforce_run limit h a = Inr (h', r, t, ev)
           \<and> prefix ev (sorted_items (objs h a))
           \<and> sorted_wrt (\<lambda>x y. length (snd y) \<le> length (snd x)) ev
           \<and> (\<forall>x\<in>set ev. \<forall>e\<in>set (objs h a). e \<notin> set ev \<longrightarrow> length (snd e) \<le> length (snd x))
           \<and> distinct ev
           \<and> objs h' r = filter (\<lambda>e. e \<notin> set ev) (objs h a)
           \<and> length (objs h' r) + length ev = length (objs h a)
           \<and> t = int (length (py_str_dict (objs h a))) - text_total ev
           \<and> (\<forall>m<length ev. limit < int (length (py_str_dict (objs h a))) - text_total (take m ev))
           \<and> (t \<le> limit \<or> objs h' r = [])"
proof -
  let ?d = "objs h a"
  let ?ev = "evictions limit ?d"
  let ?h' = "h\<lparr>objs := (objs h)(next_ref h := trimmed limit ?d), next_ref := Suc (next_ref h)\<rparr>"
  let ?t = "int (length (py_str_dict ?d)) - text_total ?ev"
  have res: "objs ?h' (next_ref h) = trimmed limit ?d" by simp
  have run: "enforce_run limit h a = Inr (?h', next_ref h, ?t, ?ev)"
    by (rule enforce_run_eq [OF wf])
  have p1: "prefix ?ev (sorted_items ?d)" by (rule evictions_prefix)
  have p2: "sorted_wrt (\<lambda>x y. length (snd y) \<le> length (snd x)) ?ev" by (rule evictions_desc)
  have p3: "\<forall>x\<in>set ?ev. \<forall>e\<in>set ?d. e \<notin> set ?ev \<longrightarrow> length (snd e) \<le> length (snd x)"
    using evictions_longest by blast
  have p4: "distinct ?ev" by (rule distinct_evictions [OF wf])
  have p5: "objs ?h' (next_ref h) = filter (\<lambda>e. e \<notin> set ?ev) ?d"
    unfolding res by (rule trimmed_by_items [OF wf])
  have p6: "length (objs ?h' (next_ref h)) + length ?ev = length ?d"
    unfolding res by (rule length_trimmed [OF wf])
  have p7: "\<forall>m<length ?ev. limit < int (length (py_str_dict ?d)) - text_total (take m ?ev)"
    using evictions_running by blast
  have p8: "?t \<le> limit \<or> objs ?h' (next_ref h) = []"
    unfolding res using evictions_stop [of ?d limit] trimmed_all [of limit ?d] by blast
  from run p1 p2 p3 p4 p5 p6 p7 p8 show ?thesis by blast
qed

text \<open>
  The example: entries of text lengths 2, 1 and 3, serialized size 33, limit 28. The longest
  entry \<open>c\<close> goes first (running total 30), then \<open>a\<close> (running total 28), and \<open>b\<close> stays.
\<close>

theorem enforce_eviction_order_witness:
  "wf_dict (objs (single_heap [(''a'', ''xx''), (''b'', ''y''), (''c'', ''zzz'')]) 0)
   \<and> (\<exists>h' r t ev.
         enforce_run 28 (single_heap [(''a'', ''xx''), (''b'', ''y''), (''c'', ''zzz'')]) 0 = Inr (h', r, t, ev)
         \<and> prefix ev (sorted_items (objs (single_heap [(''a'', ''xx''), (''b'', ''y''), (''c'', ''zzz'')]) 0))
         \<and> sorted_wrt (\<lambda>x y. length (snd y) \<le> length (snd x)) ev
         \<and> distinct ev
         \<and> length (objs h' r) + length ev = 3
         \<and> (t \<le> 28 \<or> objs h' r = []))
   \<and> (case enforce_run 28 (single_heap [(''a'', ''xx''), (''b'', ''y''), (''c'', ''zzz'')]) 0 of
         Inl e \<Rightarrow> False
       | Inr (h', r, t, ev) \<Rightarrow>
           ev = [(''c'', ''zzz''), (''a'', ''xx'')] \<and> objs h' r = [(''b'', ''y'')] \<and> t = 28)"
proof -
  let ?h = "single_heap [(''a'', ''xx''), (''b'', ''y''), (''c'', ''zzz'')]"
  have wf: "wf_dict (objs ?h 0)" by code_simp
  have len: "length (objs ?h 0) = 3" by code_simp
  have run: "case enforce_run 28 ?h 0 of
         Inl e \<Rightarrow> False
       | Inr (h', r, t, ev) \<Rightarrow>
           ev = [(''c'', ''zzz''), (''a'', ''xx'')] \<and> objs h' r = [(''b'', ''y'')] \<and> t = 28"
    by code_simp
  from enforce_eviction_order [OF wf, of 28] obtain h' r t ev where
    "enforce_run 28 ?h 0 = Inr (h', r, t, ev)"
    "prefix ev (sorted_items (objs ?h 0))"
    "sorted_wrt (\<lambda>x y. length (snd y) \<le> length (snd x)) ev"
    "distinct ev"
    "length (objs h' r) + length ev = length (objs ?h 0)"
    "t \<le> 28 \<or> objs h' r = []"
    by blast
  with wf run len show ?thesis by auto
qed

text \<open>
  C9. Among entries whose texts have the same length, evictions follow the insertion order
  of the input dict: for every length, the evicted entries of that length are an initial
  segment of the input's entries of that length. The sort by descending length is stable.
\<close>

theorem enforce_ties_insertion_order:
  assumes wf: "wf_dict (objs h a)"
  shows "\<exists>h' r t ev. enforce_run limit h a = Inr (h', r, t, ev)
           \<and> (\<forall>n. prefix (filter (\<lambda>e. length (snd e) = n) ev)
                         (filter (\<lambda>e. length (snd e) = n) (objs h a)))"
proof -
  have "\<forall>n. prefix (filter (\<lambda>e. length (snd e) = n) (evictions limit (objs h a)))
                    (filter (\<lambda>e. length (snd e) = n) (objs h a))"
    using evictions_stable by blast
  with enforce_run_eq [OF wf, of limit] show ?thesis by blast
qed

text \<open>
  The example: \<open>a\<close> and \<open>c\<close> have texts of length 2 and \<open>a\<close> was inserted first. With the
  limit 30 only \<open>a\<close> goes; with the limit 28 \<open>a\<close> goes before \<open>c\<close>.
\<close>

theorem enforce_ties_insertion_order_witness:
  "wf_dict (objs (single_heap [(''a'', ''xx''), (''b'', ''y''), (''c'', ''zz'')]) 0)
   \<and> (\<exists>h' r t ev.
         enforce_run 30 (single_heap [(''a'', ''xx''), (''b'', ''y''), (''c'', ''zz'')]) 0 = Inr (h', r, t, ev)
         \<and> (\<forall>n. prefix (filter (\<lambda>e. length (snd e) = n) ev)
                       (filter (\<lambda>e. length (snd e) = n)
                          (objs (single_heap [(''a'', ''xx''), (''b'', ''y''), (''c'', ''zz'')]) 0))))
   \<and> (case enforce_run 30 (single_heap [(''a'', ''xx''), (''b'', ''y''), (''c'', ''zz'')]) 0 of
         Inl e \<Rightarrow> False
       | Inr (h', r, t, ev) \<Rightarrow> ev = [(''a'', ''xx'')] \<and> objs h' r = [(''b'', ''y''), (''c'', ''zz'')])
   \<and> (case enforce_run 28 (single_heap [(''a'', ''xx''), (''b'', ''y''), (''c'', ''zz'')]) 0 of
         Inl e \<Rightarrow> False
       | Inr (h', r, t, ev) \<Rightarrow> ev = [(''a'', ''xx''), (''c'', ''zz'')] \<and> objs h' r = [(''b'', ''y'')])"
proof -
  let ?h = "single_heap [(''a'', ''xx''), (''b'', ''y''), (''c'', ''zz'')]"
  have wf: "wf_dict (objs ?h 0)" by code_simp
  have run30: "case enforce_run 30 ?h 0 of
         Inl e \<Rightarrow> False
       | Inr (h', r, t, ev) \<Rightarrow> ev = [(''a'', ''xx'')] \<and> objs h' r = [(''b'', ''y''), (''c'', ''zz'')]"
    by code_simp
  have run28: "case enforce_run 28 ?h 0 of
         Inl e \<Rightarrow> False
       | Inr (h', r, t, ev) \<Rightarrow> ev = [(''a'', ''xx''), (''c'', ''zz'')] \<and> objs h' r = [(''b'', ''y'')]"
    by code_simp
  from enforce_ties_insertion_order [OF wf, of 30] wf run30 run28 show ?thesis by blast
qed

section \<open>The request handler: claims\<close>

text \<open>
  C7. The length check rejects exactly the questions of more than 500 characters: the
  handler raises the HTTP 400 error with the detail of line 32 if and only if the length of
  the question exceeds 500. A question of at most 500 characters (500 included) proceeds:
  when the enforcer returns and the model answers without refusing, the handler returns
  the answer for that question.
\<close>

theorem ask_question_length_check:
  "((ask_question W parse h a q = Inl (HTTPException 400 too_long_detail)) = (500 < length q))
   \<and> (length q \<le> 500 \<longrightarrow>
        enforce_site_data_limit h a = Inr (h1, r) \<longrightarrow>
        parse (messages W (objs h1 r) q) = Inr reply \<longrightarrow>
        choices reply = m # ms \<longrightarrow>
        \<not> truthy (refusal m) \<longrightarrow>
        usage reply = Some u \<longrightarrow>
        ask_question W parse h a q =
          Inr (h1, \<lparr>user_question = q, answer = content m,
                    input_tokens = map_of u ''prompt_tokens'',
                    output_tokens = map_of u ''completion_tokens'',
                    sources = map fst (objs h1 r)\<rparr>))"
  using ask_question_too_long_iff [of W parse h a q]
    ask_question_success [of q h a h1 r parse W reply m ms u]
  by blast

text \<open>The boundary: 501 characters are rejected, 500 characters are answered.\<close>

theorem ask_question_length_check_witness:
  "ask_question None (\<lambda>ms. Inr canned_reply)
       (single_heap [(''a'', ''xx''), (''b'', ''y''), (''c'', ''zz'')]) 0 (replicate 501 CHR ''q'')
     = Inl (HTTPException 400 too_long_detail)
   \<and> ask_question None (\<lambda>ms. Inr canned_reply)
       (single_heap [(''a'', ''xx''), (''b'', ''y''), (''c'', ''zz'')]) 0 (replicate 500 CHR ''q'')
     \<noteq> Inl (HTTPException 400 too_long_detail)
   \<and> ask_question None (\<lambda>ms. Inr canned_reply)
       (single_heap [(''a'', ''xx''), (''b'', ''y''), (''c'', ''zz'')]) 0 (replicate 500 CHR ''q'')
     = Inr ((single_heap [(''a'', ''xx''), (''b'', ''y''), (''c'', ''zz'')])
              \<lparr>objs := (objs (single_heap [(''a'', ''xx''), (''b'', ''y''), (''c'', ''zz'')]))
                         (1 := [(''a'', ''xx''), (''b'', ''y''), (''c'', ''zz'')]),
               next_ref := 2\<rparr>,
            \<lparr>user_question = replicate 500 CHR ''q'', answer = Some ''ok'',
             input_tokens = Some 7, output_tokens = Some 2, sources = [''a'', ''b'', ''c'']\<rparr>)"
proof -
  let ?h = "single_heap [(''a'', ''xx''), (''b'', ''y''), (''c'', ''zz'')]"
  let ?h1 = "?h\<lparr>objs := (objs ?h)(1 := [(''a'', ''xx''), (''b'', ''y''), (''c'', ''zz'')]), next_ref := 2\<rparr>"
  let ?p = "\<lambda>ms :: (string \<times> string) list. (Inr canned_reply :: string + completion)"
  let ?m = "\<lparr>content = Some ''ok'', refusal = None\<rparr>"
  let ?u = "[(''prompt_tokens'', 7 :: int), (''completion_tokens'', 2)]"
  note thm501 = ask_question_length_check
      [of None ?p ?h 0 "replicate 501 CHR ''q''" ?h1 1 canned_reply ?m "[]" ?u]
  note thm500 = ask_question_length_check
      [of None ?p ?h 0 "replicate 500 CHR ''q''" ?h1 1 canned_reply ?m "[]" ?u]
  have c: "choices canned_reply = [?m]" "usage canned_reply = Some ?u" "\<not> truthy (refusal ?m)"
    by (simp_all add: canned_reply_def truthy_def)
  from thm501 have r501: "ask_question None ?p ?h 0 (replicate 501 CHR ''q'')
      = Inl (HTTPException 400 too_long_detail)" by simp
  from thm500 have r500: "ask_question None ?p ?h 0 (replicate 500 CHR ''q'')
      \<noteq> Inl (HTTPException 400 too_long_detail)" by simp
  from thm500 enforce_small_corpus c
  have ok: "ask_question None ?p ?h 0 (replicate 500 CHR ''q'')
      = Inr (?h1, \<lparr>user_question = replicate 500 CHR ''q'', answer = content ?m,
                    input_tokens = map_of ?u ''prompt_tokens'',
                    output_tokens = map_of ?u ''completion_tokens'',
                    sources = map fst (objs ?h1 1)\<rparr>)"
    by simp
  from r501 r500 ok show ?thesis by simp
qed

text \<open>
  C10. The empty question passes the length check and goes through the whole pipeline:
  when the enforcer returns and the model answers without refusing, the handler returns
  the answer for the empty question. No question of at most 500 characters is rejected by
  the length check, so there is no minimum length.
\<close>

theorem ask_question_empty:
  assumes "enforce_site_data_limit h a = Inr (h1, r)"
    and "parse (messages W (objs h1 r) []) = Inr reply"
    and "choices reply = m # ms"
    and "\<not> truthy (refusal m)"
    and "usage reply = Some u"
  shows "ask_question W parse h a [] =
           Inr (h1, \<lparr>user_question = [], answer = content m,
                     input_tokens = map_of u ''prompt_tokens'',
                     output_tokens = map_of u ''completion_tokens'',
                     sources = map fst (objs h1 r)\<rparr>)
         \<and> ask_question W parse h a [] \<noteq> Inl (HTTPException 400 too_long_detail)
         \<and> (\<forall>q. length q \<le> 500 \<longrightarrow>
                ask_question W parse h a q \<noteq> Inl (HTTPException 400 too_long_detail))"
proof -
  have "ask_question W parse h a [] =
           Inr (h1, \<lparr>user_question = [], answer = content m,
                     input_tokens = map_of u ''prompt_tokens'',
                     output_tokens = map_of u ''completion_tokens'',
                     sources = map fst (objs h1 r)\<rparr>)"
    using assms by (intro ask_question_success) simp_all
  moreover have "\<forall>q. length q \<le> 500 \<longrightarrow>
      ask_question W parse h a q \<noteq> Inl (HTTPException 400 too_long_detail)"
    by (simp add: ask_question_too_long_iff)
  ultimately show ?thesis by simp
qed

theorem ask_question_empty_witness:
  "enforce_site_data_limit (single_heap [(''a'', ''xx''), (''b'', ''y''), (''c'', ''zz'')]) 0
     = Inr ((single_heap [(''a'', ''xx''), (''b'', ''y''), (''c'', ''zz'')])
              \<lparr>objs := (objs (single_heap [(''a'', ''xx''), (''b'', ''y''), (''c'', ''zz'')]))
                         (1 := [(''a'', ''xx''), (''b'', ''y''), (''c'', ''zz'')]),
               next_ref := 2\<rparr>, 1)
   \<and> choices canned_reply = [\<lparr>content = Some ''ok'', refusal = None\<rparr>]
   \<and> \<not> truthy (refusal \<lparr>content = Some ''ok'', refusal = None\<rparr>)
   \<and> usage canned_reply = Some [(''prompt_tokens'', 7), (''completion_tokens'', 2)]
   \<and> ask_question None (\<lambda>ms. Inr canned_reply)
       (single_heap [(''a'', ''xx''), (''b'', ''y''), (''c'', ''zz'')]) 0 []
     = Inr ((single_heap [(''a'', ''xx''), (''b'', ''y''), (''c'', ''zz'')])
              \<lparr>objs := (objs (single_heap [(''a'', ''xx''), (''b'', ''y''), (''c'', ''zz'')]))
                         (1 := [(''a'', ''xx''), (''b'', ''y''), (''c'', ''zz'')]),
               next_ref := 2\<rparr>,
            \<lparr>user_question = [], answer = Some ''ok'',
             input_tokens = Some 7, output_tokens = Some 2, sources = [''a'', ''b'', ''c'']\<rparr>)
   \<and> ask_question None (\<lambda>ms. Inr canned_reply)
       (single_heap [(''a'', ''xx''), (''b'', ''y''), (''c'', ''zz'')]) 0 []
     \<noteq> Inl (HTTPException 400 too_long_detail)"
proof -
  let ?h = "single_heap [(''a'', ''xx''), (''b'', ''y''), (''c'', ''zz'')]"
  let ?p = "\<lambda>ms :: (string \<times> string) list. (Inr canned_reply :: string + completion)"
  let ?m = "\<lparr>content = Some ''ok'', refusal = None\<rparr>"
  let ?u = "[(''prompt_tokens'', 7 :: int), (''completion_tokens'', 2)]"
  have c1: "choices canned_reply = ?m # []" by (simp add: canned_reply_def)
  have c2: "\<not> truthy (refusal ?m)" by (simp add: truthy_def)
  have c3: "usage canned_reply = Some ?u" by (simp add: canned_reply_def)
  have p: "?p (messages None (objs (?h\<lparr>objs := (objs ?h)(1 := [(''a'', ''xx''), (''b'', ''y''), (''c'', ''zz'')]), next_ref := 2\<rparr>) 1) [])
             = Inr canned_reply" by simp
  from ask_question_empty [OF enforce_small_corpus p c1 c2 c3] enforce_small_corpus c1 c2 c3
  show ?thesis by simp
qed

text \<open>
  C6. Once the question has passed the length check, the enforcer has returned and the
  model has replied, the handler raises the HTTP 400 error with the refusal detail of line
  56 if and only if the refusal of the reply's first message is true (a non-empty string);
  and when it is true the handler returns no result at all.
\<close>

theorem ask_question_refusal:
  assumes "length q \<le> 500"
    and "enforce_site_data_limit h a = Inr (h1, r)"
    and "parse (messages W (objs h1 r) q) = Inr reply"
    and "choices reply = m # ms"
  shows "((ask_question W parse h a q = Inl (HTTPException 400 refusal_detail)) = truthy (refusal m))
         \<and> (truthy (refusal m) \<longrightarrow> (\<forall>x. ask_question W parse h a q \<noteq> Inr x))"
proof -
  have iff: "(ask_question W parse h a q = Inl (HTTPException 400 refusal_detail)) = truthy (refusal m)"
    using assms by (rule ask_question_refusal_iff)
  then have "truthy (refusal m) \<longrightarrow> (\<forall>x. ask_question W parse h a q \<noteq> Inr x)" by auto
  with iff show ?thesis by simp
qed

text \<open>The example: the model refuses, and the handler raises the refusal error.\<close>

theorem ask_question_refusal_witness:
  "length ''hi'' \<le> 500
   \<and> enforce_site_data_limit (single_heap [(''a'', ''xx''), (''b'', ''y''), (''c'', ''zz'')]) 0
     = Inr ((single_heap [(''a'', ''xx''), (''b'', ''y''), (''c'', ''zz'')])
              \<lparr>objs := (objs (single_heap [(''a'', ''xx''), (''b'', ''y''), (''c'', ''zz'')]))
                         (1 := [(''a'', ''xx''), (''b'', ''y''), (''c'', ''zz'')]),
               next_ref := 2\<rparr>, 1)
   \<and> choices refusing_reply = [\<lparr>content = None, refusal = Some ''I cannot help with that.''\<rparr>]
   \<and> truthy (refusal \<lparr>content = None, refusal = Some ''I cannot help with that.''\<rparr>)
   \<and> ask_question None (\<lambda>ms. Inr refusing_reply)
       (single_heap [(''a'', ''xx''), (''b'', ''y''), (''c'', ''zz'')]) 0 ''hi''
     = Inl (HTTPException 400 refusal_detail)
   \<and> (\<forall>x. ask_question None (\<lambda>ms. Inr refusing_reply)
       (single_heap [(''a'', ''xx''), (''b'', ''y''), (''c'', ''zz'')]) 0 ''hi'' \<noteq> Inr x)
   \<and> ask_question None (\<lambda>ms. Inr canned_reply)
       (single_heap [(''a'', ''xx''), (''b'', ''y''), (''c'', ''zz'')]) 0 ''hi''
     \<noteq> Inl (HTTPException 400 refusal_detail)"
proof -
  let ?h = "single_heap [(''a'', ''xx''), (''b'', ''y''), (''c'', ''zz'')]"
  let ?h1 = "?h\<lparr>objs := (objs ?h)(1 := [(''a'', ''xx''), (''b'', ''y''), (''c'', ''zz'')]), next_ref := 2\<rparr>"
  let ?p = "\<lambda>ms :: (string \<times> string) list. (Inr refusing_reply :: string + completion)"
  let ?p' = "\<lambda>ms :: (string \<times> string) list. (Inr canned_reply :: string + completion)"
  let ?m = "\<lparr>content = None, refusal = Some ''I cannot help with that.''\<rparr>"
  let ?m' = "\<lparr>content = Some ''ok'', refusal = None\<rparr>"
  have len: "length ''hi'' \<le> 500" by simp
  have c: "choices refusing_reply = ?m # []" by (simp add: refusing_reply_def)
  have c': "choices canned_reply = ?m' # []" by (simp add: canned_reply_def)
  have t: "truthy (refusal ?m)" by (simp add: truthy_def)
  have t': "\<not> truthy (refusal ?m')" by (simp add: truthy_def)
  have p: "?p (messages None (objs ?h1 1) ''hi'') = Inr refusing_reply" by simp
  have p': "?p' (messages None (objs ?h1 1) ''hi'') = Inr canned_reply" by simp
  from ask_question_refusal [OF len enforce_small_corpus p c] t
  have r1: "ask_question None ?p ?h 0 ''hi'' = Inl (HTTPException 400 refusal_detail)"
    and r2: "\<forall>x. ask_question None ?p ?h 0 ''hi'' \<noteq> Inr x"
    by simp_all
  from ask_question_refusal [OF len enforce_small_corpus p' c'] t'
  have r3: "ask_question None ?p' ?h 0 ''hi'' \<noteq> Inl (HTTPException 400 refusal_detail)"
    by simp
  from len enforce_small_corpus c t r1 r2 r3 show ?thesis by simp
qed

text \<open>
  C5. On a successful answer, \<open>sources\<close> is the list of the keys of the dict that the
  enforcer returned for this request, in that dict's order. This dict is the one sent to the
  model: the handler applies the client to the system message and to a user message that
  contains the \<^verbatim>\<open>str\<close> of this dict, hence the \<^verbatim>\<open>repr\<close> of every key in \<open>sources\<close>, and the
  answer depends on the client through this one call alone. It is not the full corpus when
  the enforcer has evicted entries.
\<close>

theorem ask_question_sources_trimmed:
  assumes "ask_question W parse h a q = Inr (h', res)"
  shows "\<exists>r reply. enforce_site_data_limit h a = Inr (h', r)
           \<and> parse (messages W (objs h' r) q) = Inr reply
           \<and> messages W (objs h' r) q =
               [(''system'', system_content), (''user'', user_content W (objs h' r) q)]
           \<and> sublist (py_str_dict (objs h' r)) (user_content W (objs h' r) q)
           \<and> (\<forall>k\<in>set (sources res). sublist (py_repr k) (user_content W (objs h' r) q))
           \<and> (\<forall>parse'. parse' (messages W (objs h' r) q) = parse (messages W (objs h' r) q)
                  \<longrightarrow> ask_question W parse' h a q = Inr (h', res))
           \<and> sources res = map fst (objs h' r)"
proof -
  from ask_question_sources [OF assms] obtain r reply where
    enf: "enforce_site_data_limit h a = Inr (h', r)"
    and rep: "parse (messages W (objs h' r) q) = Inr reply"
    and src: "sources res = map fst (objs h' r)"
    by blast
  have msg: "messages W (objs h' r) q =
      [(''system'', system_content), (''user'', user_content W (objs h' r) q)]"
    by (simp add: messages_def)
  have sent: "sublist (py_str_dict (objs h' r)) (user_content W (objs h' r) q)"
    by (rule sublist_dict_user_content)
  have keys: "\<forall>k\<in>set (sources res). sublist (py_repr k) (user_content W (objs h' r) q)"
  proof
    fix k assume "k \<in> set (sources res)"
    with src have "k \<in> fst ` set (objs h' r)" by simp
    then have "sublist (py_repr k) (py_str_dict (objs h' r))" by (rule sublist_key_dict)
    then show "sublist (py_repr k) (user_content W (objs h' r) q)"
      using sent by (rule sublist_trans)
  qed
  have only: "\<forall>parse'. parse' (messages W (objs h' r) q) = parse (messages W (objs h' r) q)
      \<longrightarrow> ask_question W parse' h a q = Inr (h', res)"
  proof (intro allI impI)
    fix parse' :: "(string \<times> string) list \<Rightarrow> string + completion"
    assume same: "parse' (messages W (objs h' r) q) = parse (messages W (objs h' r) q)"
    from ask_question_parse_cong [of h a h' r parse' W q parse, OF enf same] assms
    show "ask_question W parse' h a q = Inr (h', res)" by (rule trans)
  qed
  show ?thesis
  proof (intro exI conjI)
    show "enforce_site_data_limit h a = Inr (h', r)" by (rule enf)
    show "parse (messages W (objs h' r) q) = Inr reply" by (rule rep)
    show "messages W (objs h' r) q =
      [(''system'', system_content), (''user'', user_content W (objs h' r) q)]" by (rule msg)
    show "sublist (py_str_dict (objs h' r)) (user_content W (objs h' r) q)" by (rule sent)
    show "\<forall>k\<in>set (sources res). sublist (py_repr k) (user_content W (objs h' r) q)" by (rule keys)
    show "\<forall>parse'. parse' (messages W (objs h' r) q) = parse (messages W (objs h' r) q)
      \<longrightarrow> ask_question W parse' h a q = Inr (h', res)" by (rule only)
    show "sources res = map fst (objs h' r)" by (rule src)
  qed
qed

text \<open>
  The example: the corpus above \<open>MAX_TEXT_LENGTH\<close> and a client that answers only the
  messages written out in \<open>expected_user_message\<close>, with \<^verbatim>\<open>{'b': 'y'}\<close> as the website data.
  The enforcer evicts \<open>a\<close>, the client gets the dict with \<open>b\<close> alone and answers, and
  \<open>sources\<close> is \<open>b\<close> alone, while the corpus has the keys \<open>a\<close> and \<open>b\<close>. The message holds the
  \<^verbatim>\<open>repr\<close> of \<open>b\<close> and not that of \<open>a\<close>.
\<close>

theorem ask_question_sources_trimmed_witness:
  "ask_question None checking_parse (single_heap big_corpus) 0 ''hi''
     = Inr ((single_heap big_corpus)
              \<lparr>objs := (objs (single_heap big_corpus))(1 := [(''b'', ''y'')]), next_ref := 2\<rparr>,
            \<lparr>user_question = ''hi'', answer = Some ''ok'', input_tokens = Some 7,
             output_tokens = Some 2, sources = [''b'']\<rparr>)
   \<and> (\<exists>r.
         enforce_site_data_limit (single_heap big_corpus) 0
           = Inr ((single_heap big_corpus)
                    \<lparr>objs := (objs (single_heap big_corpus))(1 := [(''b'', ''y'')]), next_ref := 2\<rparr>, r)
         \<and> sublist (py_str_dict (objs ((single_heap big_corpus)
                    \<lparr>objs := (objs (single_heap big_corpus))(1 := [(''b'', ''y'')]), next_ref := 2\<rparr>) r))
               (user_content None (objs ((single_heap big_corpus)
                    \<lparr>objs := (objs (single_heap big_corpus))(1 := [(''b'', ''y'')]), next_ref := 2\<rparr>) r) ''hi'')
         \<and> sources \<lparr>user_question = ''hi'', answer = Some ''ok'', input_tokens = Some 7,
                    output_tokens = Some 2, sources = [''b'']\<rparr>
             = map fst (objs ((single_heap big_corpus)
                    \<lparr>objs := (objs (single_heap big_corpus))(1 := [(''b'', ''y'')]), next_ref := 2\<rparr>) r))
   \<and> map fst (objs (single_heap big_corpus) 0) = [''a'', ''b'']
   \<and> user_content None [(''b'', ''y'')] ''hi'' = expected_user_message
   \<and> sublist (py_repr ''b'') expected_user_message
   \<and> \<not> sublist (py_repr ''a'') expected_user_message"
proof -
  let ?h = "single_heap big_corpus"
  let ?h1 = "?h\<lparr>objs := (objs ?h)(1 := [(''b'', ''y'')]), next_ref := 2\<rparr>"
  let ?m = "\<lparr>content = Some ''ok'', refusal = None\<rparr>"
  let ?u = "[(''prompt_tokens'', 7 :: int), (''completion_tokens'', 2)]"
  let ?res = "\<lparr>user_question = ''hi'', answer = Some ''ok'', input_tokens = Some 7,
               output_tokens = Some 2, sources = [''b'']\<rparr>"
  have trimmed_dict: "objs ?h1 1 = [(''b'', ''y'')]" by simp
  have call: "checking_parse (messages None (objs ?h1 1) ''hi'') = Inr canned_reply"
    unfolding trimmed_dict by (simp add: checking_parse_def messages_def expected_message)
  have len: "length ''hi'' \<le> 500" by simp
  have c1: "choices canned_reply = ?m # []" by (simp add: canned_reply_def)
  have c2: "\<not> truthy (refusal ?m)" by (simp add: truthy_def)
  have c3: "usage canned_reply = Some ?u" by (simp add: canned_reply_def)
  have ask: "ask_question None checking_parse ?h 0 ''hi'' = Inr (?h1, ?res)"
    unfolding ask_question_success
      [of "''hi''" ?h 0 ?h1 1 checking_parse None canned_reply ?m "[]" ?u,
       OF len enforce_big_corpus call c1 c2 c3]
    by simp
  have keys: "map fst (objs ?h 0) = [''a'', ''b'']"
    by (simp add: single_heap_def big_corpus_def)
  from ask_question_sources_trimmed [OF ask] obtain r where
    "enforce_site_data_limit ?h 0 = Inr (?h1, r)"
    "sublist (py_str_dict (objs ?h1 r)) (user_content None (objs ?h1 r) ''hi'')"
    "sources ?res = map fst (objs ?h1 r)"
    by blast
  then have ex: "\<exists>r. enforce_site_data_limit ?h 0 = Inr (?h1, r)
      \<and> sublist (py_str_dict (objs ?h1 r)) (user_content None (objs ?h1 r) ''hi'')
      \<and> sources ?res = map fst (objs ?h1 r)"
    by blast
  show ?thesis
  proof (intro conjI)
    show "ask_question None checking_parse ?h 0 ''hi'' = Inr (?h1, ?res)" by (rule ask)
    show "\<exists>r. enforce_site_data_limit ?h 0 = Inr (?h1, r)
      \<and> sublist (py_str_dict (objs ?h1 r)) (user_content None (objs ?h1 r) ''hi'')
      \<and> sources ?res = map fst (objs ?h1 r)" by (rule ex)
    show "map fst (objs ?h 0) = [''a'', ''b'']" by (rule keys)
    show "user_content None [(''b'', ''y'')] ''hi'' = expected_user_message" by (rule expected_message)
    show "sublist (py_repr ''b'') expected_user_message" by (rule expected_has_b)
    show "\<not> sublist (py_repr ''a'') expected_user_message" by (rule expected_lacks_a)
  qed
qed

end
